theory Spec2Isabelle
  imports Main "HOL-Library.Sublist" "HOL-Library.Word" "HOL-Library.AList"
begin

section \<open>JavaScript strings\<close>

text \<open>
  A string is the list of its code units. The model covers the code units below 256
  (Latin-1), which \<^typ>\<open>char\<close> holds; on these \<^verbatim>\<open>String.prototype.trim\<close> strips
  U+0009 to U+000D, U+0020 and U+00A0, and \<^verbatim>\<open>toLowerCase\<close> maps A to Z and
  U+00C0 to U+00DE (without U+00D7) to the code unit 32 above.
\<close>

definition isWhiteSpace :: "char \<Rightarrow> bool" where
  "isWhiteSpace c = (of_char c \<in> {9, 10, 11, 12, 13, 32, 160 :: nat})"

definition trim :: "string \<Rightarrow> string" where
  "trim s = rev (dropWhile isWhiteSpace (rev (dropWhile isWhiteSpace s)))"

definition toLowerCase_char :: "char \<Rightarrow> char" where
  "toLowerCase_char c =
     (let n = of_char c :: nat
      in if (65 \<le> n \<and> n \<le> 90) \<or> (192 \<le> n \<and> n \<le> 222 \<and> n \<noteq> 215)
         then char_of (n + 32) else c)"

definition toLowerCase :: "string \<Rightarrow> string" where
  "toLowerCase s = map toLowerCase_char s"

text \<open>
  \<^verbatim>\<open>s.split(' ')\<close>: the pieces between single spaces. The result is never empty
  (\<^verbatim>\<open>''.split(' ')\<close> is \<^verbatim>\<open>['']\<close>), so \<^verbatim>\<open>[0]\<close> always exists.
\<close>

fun split_sp :: "string \<Rightarrow> string list" where
  "split_sp [] = [[]]"
| "split_sp (c # cs) =
     (if c = CHR '' '' then [] # split_sp cs
      else (case split_sp cs of p # ps \<Rightarrow> (c # p) # ps | [] \<Rightarrow> [[c]]))"

definition first_piece :: "string \<Rightarrow> string" where
  "first_piece s = (case split_sp s of p # _ \<Rightarrow> p | [] \<Rightarrow> [])"

definition startsWith :: "string \<Rightarrow> string \<Rightarrow> bool" where
  "startsWith s p = (take (length p) s = p)"

section \<open>CommandGuard (server3.js)\<close>

definition BLOCKED_COMMANDS :: "string list" where
  "BLOCKED_COMMANDS =
     [''shutdown'', ''reboot'', ''init'', ''poweroff'',
      ''fdisk'', ''mkfs'', ''mkswap'',
      ''mount'', ''umount'',
      ''iptables'', ''ip6tables'',
      ''kexec'', ''kernel'', ''modprobe'', ''insmod'', ''rmmod'',
      ''sysctl'',
      ''tcpdump'', ''wireshark'', ''nmap'',
      ''docker'', ''kubectl'',
      ''dd'', ''rawread'', ''rawwrite'',
      ''chroot'',
      ''lsmod'', ''lspci'', ''lsusb'']"

text \<open>
  \<^verbatim>\<open>const cmd = command.trim().split(' ')[0].toLowerCase();
  return BLOCKED_COMMANDS.includes(cmd) ||
         BLOCKED_COMMANDS.some(blocked => cmd.startsWith(blocked + ' '));\<close>
\<close>

definition isCommandBlocked :: "string \<Rightarrow> bool" where
  "isCommandBlocked command =
     (let cmd = toLowerCase (first_piece (trim command))
      in cmd \<in> set BLOCKED_COMMANDS \<or>
         list_ex (\<lambda>blocked. startsWith cmd (blocked @ '' '')) BLOCKED_COMMANDS)"

text \<open>
  The reading of the deny-list rule by white space: the first token of the line
  delimited by any white space, lowercased, is a deny-list entry. It is used only to
  compare the rule as worded with \<open>isCommandBlocked\<close>.
\<close>

definition first_whitespace_token :: "string \<Rightarrow> string" where
  "first_whitespace_token line =
     takeWhile (\<lambda>c. \<not> isWhiteSpace c) (dropWhile isWhiteSpace line)"

definition blocked_by_whitespace_token :: "string \<Rightarrow> bool" where
  "blocked_by_whitespace_token line =
     (let tok = toLowerCase (first_whitespace_token line)
      in tok \<in> set BLOCKED_COMMANDS \<or>
         list_ex (\<lambda>blocked. startsWith tok (blocked @ '' '')) BLOCKED_COMMANDS)"

section \<open>Terminal bridge, direction transport to container (server3.js)\<close>

text \<open>
  The session object of server3.js. \<open>exec\<close>, \<open>stream\<close> and \<open>lastCommand\<close> are absent
  (\<open>None\<close>) until a websocket connection or a completed line sets them. Handles of
  the container runtime (containers, exec instances, streams) are numbers. The fields
  \<open>container\<close> and \<open>lastActivity\<close> are common to the session objects of all variants
  of the server. \<open>dimensions\<close> is the pair of \<^verbatim>\<open>cols\<close> and \<open>rows\<close>.
\<close>

record session_core =
  container :: nat
  lastActivity :: int

record session = session_core +
  dimensions :: "int \<times> int"
  exec :: "nat option"
  stream :: "nat option"
  lastCommand :: "string option"

text \<open>
  What the closure \<^verbatim>\<open>ws.on('message', (data) => ...)\<close> of one connection reads and
  writes: the session object it captured (\<open>session_obj\<close>), its \<^verbatim>\<open>commandBuffer\<close>,
  the strings handed to \<^verbatim>\<open>stream.write\<close> (the input of the shell in the container)
  and the frames handed to \<^verbatim>\<open>ws.send\<close> (the browser), both oldest first.
  \<^verbatim>\<open>stream.write\<close> of a string or Buffer queues it and returns.
\<close>

record bridge =
  session_obj :: session
  commandBuffer :: string
  stream_written :: "string list"
  ws_sent :: "string list"

definition CR :: string where "CR = [CHR 0x0D]"
definition LF :: string where "LF = [CHR 0x0A]"

definition blocked_notice :: string where
  "blocked_notice = CR @ LF @ ''This command is blocked for security reasons'' @ CR @ LF"

definition stream_write :: "string \<Rightarrow> bridge \<Rightarrow> bridge" where
  "stream_write data b = b\<lparr>stream_written := stream_written b @ [data]\<rparr>"

definition set_lastCommand :: "string option \<Rightarrow> bridge \<Rightarrow> bridge" where
  "set_lastCommand v b = b\<lparr>session_obj := (session_obj b)\<lparr>lastCommand := v\<rparr>\<rparr>"

text \<open>
  The handler, lines 255 to 289; \<open>now\<close> is \<^verbatim>\<open>Date.now()\<close>, \<open>input\<close> is
  \<^verbatim>\<open>data.toString()\<close>. A non-empty string is truthy.
\<close>

definition ws_on_message :: "int \<Rightarrow> string \<Rightarrow> bridge \<Rightarrow> bridge" where
  "ws_on_message now input b0 =
     (let b = b0\<lparr>session_obj := (session_obj b0)\<lparr>lastActivity := now\<rparr>\<rparr>
      in if input = CR \<or> input = LF
         then
           if trim (commandBuffer b) \<noteq> [] \<and> isCommandBlocked (trim (commandBuffer b))
           then (stream_write blocked_notice b)\<lparr>commandBuffer := []\<rparr>
           else if trim (commandBuffer b) = ''q'' \<and> lastCommand (session_obj b) = Some ''top''
           then (set_lastCommand (Some [])
                   (stream_write (CR @ LF) (stream_write [CHR 0x03] b)))\<lparr>commandBuffer := []\<rparr>
           else
             stream_write input
               ((if trim (commandBuffer b) \<noteq> []
                 then set_lastCommand (Some (first_piece (trim (commandBuffer b)))) b
                 else b)\<lparr>commandBuffer := []\<rparr>)
         else stream_write input (b\<lparr>commandBuffer := commandBuffer b @ input\<rparr>))"

text \<open>A connection starts with an empty buffer; the frames of a client arrive in order.\<close>

definition ws_on_messages :: "int \<Rightarrow> string list \<Rightarrow> bridge \<Rightarrow> bridge" where
  "ws_on_messages now inputs b = fold (ws_on_message now) inputs b"

text \<open>
  The closure of a connection once its handlers are registered: \<open>stream_written\<close> and
  \<open>ws_sent\<close> count from there, after the initialisation commands.
\<close>

definition new_bridge :: "session \<Rightarrow> bridge" where
  "new_bridge s = \<lparr>session_obj = s, commandBuffer = [], stream_written = [], ws_sent = []\<rparr>"

section \<open>Terminal bridge, direction container to transport (server3.js)\<close>

text \<open>
  The handler \<^verbatim>\<open>stream.on('data', (chunk) => ...)\<close> of server3.js, lines 291 to 308.
  A chunk is a Node Buffer, here a list of bytes. The websocket is the record of its
  \<^verbatim>\<open>readyState\<close> and of the frames handed to \<^verbatim>\<open>ws.send\<close>, oldest first.
  \<^verbatim>\<open>ws.send\<close> on an open socket queues the frame and returns; it is modelled as
  appending to \<open>sent\<close>.
\<close>

type_synonym byte = "8 word"

datatype readyState = CONNECTING | OPEN | CLOSING | CLOSED

record websocket =
  readyState :: readyState
  sent :: "byte list list"

definition maxChunkSize :: nat where
  "maxChunkSize = 1024"

text \<open>
  \<^verbatim>\<open>for (let i = 0; i < chunk.length; i += maxChunkSize)
    ws.send(Buffer.from(chunk.slice(i, Math.min(i + maxChunkSize, chunk.length))))\<close>
  The function returns the frames sent from index \<open>i\<close> on.
\<close>

definition slice :: "byte list \<Rightarrow> nat \<Rightarrow> nat \<Rightarrow> byte list" where
  "slice chunk start end = take (end - start) (drop start chunk)"

function subChunks :: "nat \<Rightarrow> byte list \<Rightarrow> byte list list" where
  "subChunks i chunk =
     (if i < length chunk
      then slice chunk i (min (i + maxChunkSize) (length chunk)) # subChunks (i + maxChunkSize) chunk
      else [])"
  by pat_completeness auto
termination
  by (relation "measure (\<lambda>(i, chunk). length chunk - i)") (auto simp: maxChunkSize_def)

definition stream_on_data :: "websocket \<Rightarrow> byte list \<Rightarrow> websocket" where
  "stream_on_data ws chunk =
     (if readyState ws = OPEN
      then (if length chunk > maxChunkSize
            then ws\<lparr>sent := sent ws @ subChunks 0 chunk\<rparr>
            else ws\<lparr>sent := sent ws @ [chunk]\<rparr>)
      else ws)"

text \<open>The frames one chunk adds to the transport: what \<open>sent\<close> gains.\<close>

definition frames_of :: "websocket \<Rightarrow> byte list \<Rightarrow> byte list list" where
  "frames_of ws chunk = drop (length (sent ws)) (sent (stream_on_data ws chunk))"

section \<open>The container runtime\<close>

text \<open>
  The \<^verbatim>\<open>HostConfig\<close> passed to \<^verbatim>\<open>docker.createContainer\<close>, and the calls the
  servers make on the runtime. A runtime answers a call, given the calls made before
  it, with \<open>Some h\<close> when the promise resolves (\<open>h\<close> is the handle of the new
  container, exec instance or stream, and meaningless for the other calls) and with
  \<open>None\<close> when it rejects.
\<close>

record hostConfig =
  AutoRemove :: bool
  Memory :: nat
  MemorySwap :: nat
  CpuShares :: nat
  SecurityOpt :: "string list"
  CapDrop :: "string list"
  CapAdd :: "string list"
  NetworkMode :: string
  ReadonlyRootfs :: bool
  PidsLimit :: nat
  Ulimits :: "(string \<times> nat \<times> nat) list"

datatype call =
    CreateContainer hostConfig
  | ContainerStart nat
  | ContainerExec nat
  | ExecStart nat
  | ExecResize nat int int
  | ContainerStop nat
  | ContainerRemove nat

type_synonym runtime = "call list \<Rightarrow> call \<Rightarrow> nat option"

section \<open>Session registry and teardown (all variants)\<close>

text \<open>
  \<^verbatim>\<open>activeSessions\<close> is a JavaScript \<^verbatim>\<open>Map\<close>: an association list in insertion
  order, read with \<open>map_of\<close>, written with \<open>AList.update\<close> (in place for a known key,
  at the end for a new one) and \<open>AList.delete\<close>. \<open>calls\<close> records the calls made on
  the runtime, oldest first. Each handler is modelled as running to completion.
\<close>

record 's registry =
  activeSessions :: "(string \<times> 's) list"
  calls :: "call list"

definition invoke ::
  "runtime \<Rightarrow> call \<Rightarrow> ('s, 'm) registry_scheme \<Rightarrow> nat option \<times> ('s, 'm) registry_scheme" where
  "invoke rt c srv = (rt (calls srv) c, srv\<lparr>calls := calls srv @ [c]\<rparr>)"

text \<open>
  \<^verbatim>\<open>cleanupSession\<close>, the same text in server.js, server2.js and server3.js: a
  rejected \<^verbatim>\<open>stop\<close> skips \<^verbatim>\<open>remove\<close>, either rejection is caught and logged, and
  \<^verbatim>\<open>finally\<close> deletes the entry.
\<close>

definition cleanupSession ::
  "runtime \<Rightarrow> string \<Rightarrow> ('a session_core_scheme, 'm) registry_scheme
     \<Rightarrow> ('a session_core_scheme, 'm) registry_scheme" where
  "cleanupSession rt sessionId srv =
     (case map_of (activeSessions srv) sessionId of
        None \<Rightarrow> srv
      | Some session \<Rightarrow>
          (let (stopped, srv1) = invoke rt (ContainerStop (container session)) srv;
               srv2 = (case stopped of
                         None \<Rightarrow> srv1
                       | Some _ \<Rightarrow> snd (invoke rt (ContainerRemove (container session)) srv1))
           in srv2\<lparr>activeSessions := AList.delete sessionId (activeSessions srv2)\<rparr>))"

datatype response =
    SessionCreated string
  | Message string
  | Error nat string
  | SessionStatus string bool int

section \<open>Session control API of server3.js\<close>

definition hostConfig_v3 :: hostConfig where
  "hostConfig_v3 =
     \<lparr>AutoRemove = True,
      Memory = 512 * 1024 * 1024,
      MemorySwap = 512 * 1024 * 1024,
      CpuShares = 256,
      SecurityOpt = [''no-new-privileges:false'', ''seccomp=unconfined''],
      CapDrop = [''ALL''],
      CapAdd = [''AUDIT_WRITE'', ''CHOWN'', ''DAC_OVERRIDE'', ''SETGID'', ''SETUID'',
                ''NET_BIND_SERVICE'', ''SYS_ADMIN''],
      NetworkMode = ''bridge'',
      ReadonlyRootfs = False,
      PidsLimit = 100,
      Ulimits = [(''nofile'', 1024, 2048)]\<rparr>"

text \<open>
  \<^verbatim>\<open>app.post('/api/sessions')\<close>, lines 90 to 169; \<open>sessionId\<close> is the value of
  \<^verbatim>\<open>uuidv4()\<close>, \<open>now\<close> of \<^verbatim>\<open>Date.now()\<close>, \<open>cols\<close> and \<open>rows\<close> are those of the
  request body or the defaults 80 and 24. The exec instance of the set-up script is
  local to the handler: the session is stored without \<open>exec\<close> and \<open>stream\<close>.
\<close>

definition app_post_sessions ::
  "runtime \<Rightarrow> int \<Rightarrow> string \<Rightarrow> int \<Rightarrow> int \<Rightarrow> session registry \<Rightarrow> response \<times> session registry" where
  "app_post_sessions rt now sessionId cols rows srv =
     (case invoke rt (CreateContainer hostConfig_v3) srv of
        (None, s1) \<Rightarrow> (Error 500 ''Failed to create session'', s1)
      | (Some c, s1) \<Rightarrow>
     (case invoke rt (ContainerStart c) s1 of
        (None, s2) \<Rightarrow> (Error 500 ''Failed to create session'', s2)
      | (Some _, s2) \<Rightarrow>
     (case invoke rt (ContainerExec c) s2 of
        (None, s3) \<Rightarrow> (Error 500 ''Failed to create session'', s3)
      | (Some e, s3) \<Rightarrow>
     (case invoke rt (ExecStart e) s3 of
        (None, s4) \<Rightarrow> (Error 500 ''Failed to create session'', s4)
      | (Some _, s4) \<Rightarrow>
          (SessionCreated sessionId,
           s4\<lparr>activeSessions :=
                 AList.update sessionId
                   \<lparr>container = c, lastActivity = now, dimensions = (cols, rows),
                    exec = None, stream = None, lastCommand = None\<rparr>
                   (activeSessions s4)\<rparr>)))))"

text \<open>\<^verbatim>\<open>app.post('/api/sessions/:sessionId/resize')\<close>, lines 171 to 191.\<close>

definition app_post_resize ::
  "runtime \<Rightarrow> string \<Rightarrow> int \<Rightarrow> int \<Rightarrow> (session, 'm) registry_scheme
     \<Rightarrow> response \<times> (session, 'm) registry_scheme" where
  "app_post_resize rt sessionId cols rows srv =
     (case map_of (activeSessions srv) sessionId of
        None \<Rightarrow> (Error 404 ''Session not found'', srv)
      | Some session \<Rightarrow>
          (case exec session of
             None \<Rightarrow> (Message ''Terminal resized'', srv)
           | Some e \<Rightarrow>
               (case invoke rt (ExecResize e rows cols) srv of
                  (None, s1) \<Rightarrow> (Error 500 ''Failed to resize terminal'', s1)
                | (Some _, s1) \<Rightarrow>
                    (Message ''Terminal resized'',
                     s1\<lparr>activeSessions :=
                           AList.update sessionId (session\<lparr>dimensions := (cols, rows)\<rparr>)
                             (activeSessions s1)\<rparr>))))"

text \<open>
  \<^verbatim>\<open>app.delete('/api/sessions/:sessionId')\<close>, lines 193 to 202. \<open>cleanupSession\<close>
  catches what the runtime throws, so the handler's own \<^verbatim>\<open>catch\<close> is never entered.
\<close>

definition app_delete ::
  "runtime \<Rightarrow> string \<Rightarrow> (session, 'm) registry_scheme \<Rightarrow> response \<times> (session, 'm) registry_scheme" where
  "app_delete rt sessionId srv =
     (Message ''Session terminated successfully'', cleanupSession rt sessionId srv)"

text \<open>
  The idle reaper, lines 337 to 344: the body of the \<^verbatim>\<open>setInterval\<close> callback, over
  the entries the map holds when the sweep starts.
\<close>

definition sweep_step ::
  "runtime \<Rightarrow> int \<Rightarrow> string \<times> session \<Rightarrow> (session, 'm) registry_scheme
     \<Rightarrow> (session, 'm) registry_scheme" where
  "sweep_step rt now entry s =
     (case entry of (sessionId, session) \<Rightarrow>
        if now - lastActivity session > 30 * 60 * 1000
        then cleanupSession rt sessionId s else s)"

definition reaper_sweep ::
  "runtime \<Rightarrow> int \<Rightarrow> (session, 'm) registry_scheme \<Rightarrow> (session, 'm) registry_scheme" where
  "reaper_sweep rt now srv = fold (sweep_step rt now) (activeSessions srv) srv"

section \<open>Websocket connections of server3.js\<close>

text \<open>
  \<^verbatim>\<open>wss.on('connection')\<close>, lines 204 to 335. An accepted connection registers the
  handlers that relay between its websocket and its stream: a \<open>link\<close>. The state adds
  to the registry the links registered so far, the websockets closed, the streams ended
  and the notices sent outside a relay.
\<close>

record link =
  link_ws :: nat
  link_session :: string
  link_exec :: nat
  link_stream :: nat

record hub = "session registry" +
  links :: "link list"
  closed_ws :: "nat list"
  ended_streams :: "nat list"
  notices :: "(nat \<times> string) list"

definition ws_close :: "nat \<Rightarrow> hub \<Rightarrow> hub" where
  "ws_close ws h = h\<lparr>closed_ws := closed_ws h @ [ws]\<rparr>"

definition wss_on_connection :: "runtime \<Rightarrow> nat \<Rightarrow> string \<Rightarrow> hub \<Rightarrow> hub" where
  "wss_on_connection rt ws sessionId h =
     (case map_of (activeSessions h) sessionId of
        None \<Rightarrow>
          ws_close ws (h\<lparr>notices := notices h @ [(ws, ''Session not found or expired'' @ CR @ LF)]\<rparr>)
      | Some session \<Rightarrow>
     (case invoke rt (ContainerExec (container session)) h of
        (None, h1) \<Rightarrow> ws_close ws h1
      | (Some e, h1) \<Rightarrow>
     (case invoke rt (ExecStart e) h1 of
        (None, h2) \<Rightarrow> ws_close ws h2
      | (Some st, h2) \<Rightarrow>
          h2\<lparr>activeSessions :=
                AList.update sessionId (session\<lparr>exec := Some e, stream := Some st\<rparr>)
                  (activeSessions h2),
              links := links h2 @
                [\<lparr>link_ws = ws, link_session = sessionId, link_exec = e, link_stream = st\<rparr>]\<rparr>)))"

text \<open>
  \<^verbatim>\<open>ws.on('close', () => stream.end())\<close>: the websocket closes and the handler of
  each link registered for it ends that link's stream.
\<close>

definition ws_on_close :: "nat \<Rightarrow> hub \<Rightarrow> hub" where
  "ws_on_close ws h =
     (ws_close ws h)\<lparr>ended_streams :=
        ended_streams h @ map link_stream (filter (\<lambda>l. link_ws l = ws) (links h))\<rparr>"

text \<open>
  The bridges of a session that are live: the links registered for it whose websocket
  is not closed and whose stream is not ended.
\<close>

definition live_bridges :: "string \<Rightarrow> hub \<Rightarrow> link list" where
  "live_bridges sessionId h =
     filter (\<lambda>l. link_session l = sessionId
                  \<and> link_ws l \<notin> set (closed_ws h)
                  \<and> link_stream l \<notin> set (ended_streams h))
            (links h)"

section \<open>server.js: creation with a timer, status, deletion\<close>

text \<open>
  The session object of server.js holds the exec instance and the stream from creation
  on and has no dimensions. The state adds the timers armed with \<^verbatim>\<open>setTimeout\<close>, each
  with its due time and the session id its callback closes over, and the strings
  written to each stream.
\<close>

record session_v1 = session_core +
  exec_v1 :: nat
  stream_v1 :: nat

record server_v1 = "session_v1 registry" +
  timers :: "(int \<times> string) list"
  written_v1 :: "(nat \<times> string) list"

definition hostConfig_v1 :: hostConfig where
  "hostConfig_v1 =
     \<lparr>AutoRemove = True,
      Memory = 1024 * 1024 * 1024,
      MemorySwap = 1024 * 1024 * 1024,
      CpuShares = 512,
      SecurityOpt = [''no-new-privileges''],
      CapDrop = [''ALL''],
      CapAdd = [''NET_ADMIN''],
      NetworkMode = ''bridge'',
      ReadonlyRootfs = False,
      PidsLimit = 100,
      Ulimits = []\<rparr>"

text \<open>\<^verbatim>\<open>app.post('/api/sessions')\<close> of server.js, lines 43 to 122.\<close>

definition app_post_sessions_v1 ::
  "runtime \<Rightarrow> int \<Rightarrow> string \<Rightarrow> server_v1 \<Rightarrow> response \<times> server_v1" where
  "app_post_sessions_v1 rt now sessionId srv =
     (case invoke rt (CreateContainer hostConfig_v1) srv of
        (None, s1) \<Rightarrow> (Error 500 ''Failed to create session'', s1)
      | (Some c, s1) \<Rightarrow>
     (case invoke rt (ContainerStart c) s1 of
        (None, s2) \<Rightarrow> (Error 500 ''Failed to create session'', s2)
      | (Some _, s2) \<Rightarrow>
     (case invoke rt (ContainerExec c) s2 of
        (None, s3) \<Rightarrow> (Error 500 ''Failed to create session'', s3)
      | (Some e, s3) \<Rightarrow>
     (case invoke rt (ExecStart e) s3 of
        (None, s4) \<Rightarrow> (Error 500 ''Failed to create session'', s4)
      | (Some st, s4) \<Rightarrow>
          (SessionCreated sessionId,
           s4\<lparr>activeSessions :=
                 AList.update sessionId
                   \<lparr>container = c, lastActivity = now, exec_v1 = e, stream_v1 = st\<rparr>
                   (activeSessions s4),
               timers := timers s4 @ [(now + 30 * 60 * 1000, sessionId)]\<rparr>)))))"

text \<open>
  The callback of the timer:
  \<^verbatim>\<open>if (activeSessions.has(sessionId)) await cleanupSession(sessionId)\<close>.
\<close>

definition timeout_callback :: "runtime \<Rightarrow> string \<Rightarrow> server_v1 \<Rightarrow> server_v1" where
  "timeout_callback rt sessionId srv =
     (if map_of (activeSessions srv) sessionId \<noteq> None
      then cleanupSession rt sessionId srv else srv)"

text \<open>
  The clock reaching \<open>now\<close>: the timers due by then leave the timer list and their
  callbacks run, in the order they were armed.
\<close>

definition fire :: "runtime \<Rightarrow> int \<times> string \<Rightarrow> server_v1 \<Rightarrow> server_v1" where
  "fire rt timer s = timeout_callback rt (snd timer) s"

definition run_timers :: "runtime \<Rightarrow> int \<Rightarrow> server_v1 \<Rightarrow> server_v1" where
  "run_timers rt now srv =
     fold (fire rt)
          (filter (\<lambda>timer. fst timer \<le> now) (timers srv))
          (srv\<lparr>timers := filter (\<lambda>timer. \<not> fst timer \<le> now) (timers srv)\<rparr>)"

text \<open>
  \<^verbatim>\<open>ws.on('message')\<close> of server.js, lines 149 to 161, for a connection to
  \<open>sessionId\<close>. The session object of the closure is the registry's entry while there
  is one; \<open>st\<close> is the stream the closure took from it when the connection was made.
\<close>

definition ws_on_message_v1 :: "int \<Rightarrow> string \<Rightarrow> nat \<Rightarrow> string \<Rightarrow> server_v1 \<Rightarrow> server_v1" where
  "ws_on_message_v1 now sessionId st command srv =
     (let srv1 = (case map_of (activeSessions srv) sessionId of
                    None \<Rightarrow> srv
                  | Some session \<Rightarrow>
                      srv\<lparr>activeSessions :=
                            AList.update sessionId (session\<lparr>lastActivity := now\<rparr>)
                              (activeSessions srv)\<rparr>)
      in if length (trim command) > 0
         then srv1\<lparr>written_v1 := written_v1 srv1 @ [(st, command @ LF)]\<rparr>
         else srv1)"

text \<open>\<^verbatim>\<open>app.get('/api/sessions/:sessionId')\<close> of server.js, lines 192 to 205.\<close>

definition app_get :: "string \<Rightarrow> ('a session_core_scheme, 'm) registry_scheme \<Rightarrow> response" where
  "app_get sessionId srv =
     (case map_of (activeSessions srv) sessionId of
        None \<Rightarrow> Error 404 ''Session not found''
      | Some session \<Rightarrow> SessionStatus sessionId True (lastActivity session))"

text \<open>\<^verbatim>\<open>app.delete('/api/sessions/:sessionId')\<close> of server.js, lines 208 to 222.\<close>

definition app_delete_v1 :: "runtime \<Rightarrow> string \<Rightarrow> server_v1 \<Rightarrow> response \<times> server_v1" where
  "app_delete_v1 rt sessionId srv =
     (if map_of (activeSessions srv) sessionId = None
      then (Error 404 ''Session not found'', srv)
      else (Message ''Session terminated successfully'', cleanupSession rt sessionId srv))"

section \<open>The activity of clients, and states to run the handlers on\<close>

text \<open>
  Frames of clients of server.js, each with its arrival time, the session and the
  stream of its connection.
\<close>

definition client_frame :: "int \<times> string \<times> nat \<times> string \<Rightarrow> server_v1 \<Rightarrow> server_v1" where
  "client_frame frame srv =
     (case frame of (now, sessionId, st, command) \<Rightarrow> ws_on_message_v1 now sessionId st command srv)"

definition client_activity ::
  "(int \<times> string \<times> nat \<times> string) list \<Rightarrow> server_v1 \<Rightarrow> server_v1" where
  "client_activity frames srv = fold client_frame frames srv"

text \<open>The \<^verbatim>\<open>HostConfig\<close> of a \<^verbatim>\<open>createContainer\<close> call.\<close>

definition created_with :: "call \<Rightarrow> hostConfig option" where
  "created_with c = (case c of CreateContainer cfg \<Rightarrow> Some cfg | _ \<Rightarrow> None)"

text \<open>
  A runtime whose calls all resolve, each with a fresh handle, and one whose calls all
  reject.
\<close>

definition runtime_ok :: runtime where
  "runtime_ok cs c = Some (length cs)"

definition runtime_failing :: runtime where
  "runtime_failing cs c = None"

definition example_session :: session where
  "example_session =
     \<lparr>container = 1, lastActivity = 0, dimensions = (80, 24),
      exec = Some 2, stream = Some 3, lastCommand = None\<rparr>"

text \<open>
  Three sessions: \<open>a\<close> with a process channel, \<open>b\<close> without, both last active at
  time 0, and \<open>c\<close> last active at minute 31.
\<close>

definition example_registry :: "session registry" where
  "example_registry =
     \<lparr>activeSessions =
        [(''a'', example_session),
         (''b'', example_session\<lparr>container := 4, exec := None, stream := None\<rparr>),
         (''c'', example_session\<lparr>container := 5, lastActivity := 31 * 60 * 1000,
                                 exec := None, stream := None\<rparr>)],
      calls = []\<rparr>"

definition example_hub :: hub where
  "example_hub =
     \<lparr>activeSessions = [(''b'', example_session\<lparr>container := 4, exec := None, stream := None\<rparr>)],
      calls = [], links = [], closed_ws = [], ended_streams = [], notices = []\<rparr>"

definition empty_server_v1 :: server_v1 where
  "empty_server_v1 = \<lparr>activeSessions = [], calls = [], timers = [], written_v1 = []\<rparr>"

section \<open>CommandGuard: which lines are blocked\<close>

lemma toLowerCase_char_space: "toLowerCase_char c = CHR '' '' \<longleftrightarrow> c = CHR '' ''"
proof -
  have "of_char (toLowerCase_char c) = (32::nat) \<longleftrightarrow> of_char c = (32::nat)"
    by (auto simp: toLowerCase_char_def Let_def)
  moreover have "of_char (CHR '' '') = (32::nat)" by simp
  ultimately show ?thesis by (metis of_char_eq_iff)
qed

lemma split_sp_ne: "split_sp s \<noteq> []"
  by (induction s) (auto split: list.splits)

lemma first_piece_takeWhile: "first_piece s = takeWhile (\<lambda>c. c \<noteq> CHR '' '') s"
  unfolding first_piece_def
  by (induction s) (auto split: list.splits simp: split_sp_ne)

lemma toLowerCase_takeWhile:
  "toLowerCase (takeWhile (\<lambda>c. c \<noteq> CHR '' '') s) = takeWhile (\<lambda>c. c \<noteq> CHR '' '') (toLowerCase s)"
  unfolding toLowerCase_def
  by (induction s) (auto simp: toLowerCase_char_space)

lemma takeWhile_no_space:
  "CHR '' '' \<notin> set b \<Longrightarrow>
     takeWhile (\<lambda>c. c \<noteq> CHR '' '') (b @ r) = b @ takeWhile (\<lambda>c. c \<noteq> CHR '' '') r"
  by (induction b) auto

lemma takeWhile_eq_name:
  assumes "CHR '' '' \<notin> set b"
  shows "takeWhile (\<lambda>c. c \<noteq> CHR '' '') u = b \<longleftrightarrow> u = b \<or> prefix (b @ '' '') u"
proof
  assume tw: "takeWhile (\<lambda>c. c \<noteq> CHR '' '') u = b"
  show "u = b \<or> prefix (b @ '' '') u"
  proof (cases "dropWhile (\<lambda>c. c \<noteq> CHR '' '') u")
    case Nil
    with tw takeWhile_dropWhile_id [of "\<lambda>c. c \<noteq> CHR '' ''" u] show ?thesis by simp
  next
    case (Cons x xs)
    then have "x = CHR '' ''" using hd_dropWhile [of "\<lambda>c. c \<noteq> CHR '' ''" u] by auto
    with Cons tw takeWhile_dropWhile_id [of "\<lambda>c. c \<noteq> CHR '' ''" u]
    have "u = (b @ '' '') @ xs" by simp
    then show ?thesis unfolding prefix_def by blast
  qed
next
  assume "u = b \<or> prefix (b @ '' '') u"
  then show "takeWhile (\<lambda>c. c \<noteq> CHR '' '') u = b"
  proof
    assume "u = b" with assms show ?thesis using takeWhile_no_space [of b "[]"] by simp
  next
    assume "prefix (b @ '' '') u"
    then obtain r where "u = b @ CHR '' '' # r" unfolding prefix_def by auto
    with assms show ?thesis by (simp add: takeWhile_no_space)
  qed
qed

lemma no_space_takeWhile: "CHR '' '' \<notin> set (takeWhile (\<lambda>c. c \<noteq> CHR '' '') u)"
  by (auto dest: set_takeWhileD)

lemma startsWith_prefix: "startsWith s p \<longleftrightarrow> prefix p s"
  unfolding startsWith_def prefix_def
  by (metis append_eq_conv_conj append_take_drop_id)

lemma blocked_no_space: "b \<in> set BLOCKED_COMMANDS \<Longrightarrow> CHR '' '' \<notin> set b"
  unfolding BLOCKED_COMMANDS_def by auto

lemma cmd_prefix_dead:
  "\<not> startsWith (takeWhile (\<lambda>c. c \<noteq> CHR '' '') u) (b @ '' '')"
proof
  assume "startsWith (takeWhile (\<lambda>c. c \<noteq> CHR '' '') u) (b @ '' '')"
  then have "prefix (b @ '' '') (takeWhile (\<lambda>c. c \<noteq> CHR '' '') u)"
    by (simp add: startsWith_prefix)
  then have "set (b @ '' '') \<subseteq> set (takeWhile (\<lambda>c. c \<noteq> CHR '' '') u)"
    by (rule set_mono_prefix)
  then show False using no_space_takeWhile [of u] by auto
qed

lemma isCommandBlocked_iff:
  "isCommandBlocked command \<longleftrightarrow>
     (\<exists>b \<in> set BLOCKED_COMMANDS.
        toLowerCase (trim command) = b \<or> prefix (b @ '' '') (toLowerCase (trim command)))"
proof -
  let ?u = "toLowerCase (trim command)"
  have cmd: "toLowerCase (first_piece (trim command)) = takeWhile (\<lambda>c. c \<noteq> CHR '' '') ?u"
    by (simp add: first_piece_takeWhile toLowerCase_takeWhile)
  have "isCommandBlocked command \<longleftrightarrow> takeWhile (\<lambda>c. c \<noteq> CHR '' '') ?u \<in> set BLOCKED_COMMANDS"
    unfolding isCommandBlocked_def Let_def cmd
    by (simp add: cmd_prefix_dead list_ex_iff)
  also have "\<dots> \<longleftrightarrow> (\<exists>b \<in> set BLOCKED_COMMANDS. takeWhile (\<lambda>c. c \<noteq> CHR '' '') ?u = b)"
    by auto
  also have "\<dots> \<longleftrightarrow> (\<exists>b \<in> set BLOCKED_COMMANDS. ?u = b \<or> prefix (b @ '' '') ?u)"
    using takeWhile_eq_name [OF blocked_no_space] by blast
  finally show ?thesis .
qed

text \<open>
  C1 (amended). A line is blocked exactly when, after trimming white space at both ends
  and lowercasing, it is a deny-list name or starts with a deny-list name followed by a
  space (U+0020). The lines "reboot" and "reboot now" are blocked,
  "rebootable-script.sh" is allowed.
\<close>

theorem isCommandBlocked_name_or_name_space:
  "(isCommandBlocked command \<longleftrightarrow>
      (\<exists>b \<in> set BLOCKED_COMMANDS.
         toLowerCase (trim command) = b \<or> prefix (b @ '' '') (toLowerCase (trim command))))
   \<and> isCommandBlocked ''reboot''
   \<and> isCommandBlocked ''reboot now''
   \<and> \<not> isCommandBlocked ''rebootable-script.sh''"
proof -
  have "isCommandBlocked ''reboot''" by code_simp
  moreover have "isCommandBlocked ''reboot now''" by code_simp
  moreover have "\<not> isCommandBlocked ''rebootable-script.sh''" by code_simp
  ultimately show ?thesis using isCommandBlocked_iff [of command] by blast
qed

theorem isCommandBlocked_name_or_name_space_witness:
  "isCommandBlocked ''  ReBoot now'' \<and>
   (\<exists>b \<in> set BLOCKED_COMMANDS.
      toLowerCase (trim ''  ReBoot now'') = b
      \<or> prefix (b @ '' '') (toLowerCase (trim ''  ReBoot now'')))"
proof -
  have "isCommandBlocked ''  ReBoot now''" by code_simp
  then show ?thesis
    using isCommandBlocked_name_or_name_space [of "''  ReBoot now''"] by blast
qed

text \<open>
  C1 as worded fails where the first token ends at white space other than a space: in
  "reboot<TAB>now" the first white-space-delimited token is "reboot", a deny-list
  entry, but \<^verbatim>\<open>split(' ')\<close> leaves "reboot<TAB>now" whole and the line is allowed.
\<close>

theorem isCommandBlocked_tab_counterexample:
  "first_whitespace_token (''reboot'' @ [CHR 0x09] @ ''now'') = ''reboot''
   \<and> blocked_by_whitespace_token (''reboot'' @ [CHR 0x09] @ ''now'')
   \<and> \<not> isCommandBlocked (''reboot'' @ [CHR 0x09] @ ''now'')"
proof -
  have "first_whitespace_token (''reboot'' @ [CHR 0x09] @ ''now'') = ''reboot''" by code_simp
  moreover have "blocked_by_whitespace_token (''reboot'' @ [CHR 0x09] @ ''now'')" by code_simp
  moreover have "\<not> isCommandBlocked (''reboot'' @ [CHR 0x09] @ ''now'')" by code_simp
  ultimately show ?thesis by blast
qed

section \<open>Output chunking\<close>

declare subChunks.simps [simp del]

lemma subChunks_concat:
  "i \<le> length chunk \<Longrightarrow> concat (subChunks i chunk) = drop i chunk"
proof (induction i chunk rule: subChunks.induct)
  case (1 i chunk)
  show ?case
  proof (cases "i < length chunk")
    case True
    have step: "concat (subChunks (i + maxChunkSize) chunk) = drop (i + maxChunkSize) chunk"
    proof (cases "i + maxChunkSize \<le> length chunk")
      case True
      with \<open>i < length chunk\<close> "1.IH" show ?thesis by simp
    next
      case False
      then show ?thesis by (simp add: subChunks.simps [of "i + maxChunkSize"])
    qed
    have first: "slice chunk i (min (i + maxChunkSize) (length chunk))
            = take maxChunkSize (drop i chunk)"
      by (cases "i + maxChunkSize \<le> length chunk") (simp_all add: min_def slice_def)
    have rest: "drop (i + maxChunkSize) chunk = drop maxChunkSize (drop i chunk)"
      by (simp add: add.commute)
    have "concat (subChunks i chunk)
            = take maxChunkSize (drop i chunk) @ drop maxChunkSize (drop i chunk)"
      using True step first rest by (simp add: subChunks.simps [of i])
    then show ?thesis by (simp only: append_take_drop_id)
  next
    case False
    with "1.prems" have "i = length chunk" by simp
    then show ?thesis by (simp add: subChunks.simps [of "length chunk"])
  qed
qed

lemma subChunks_bound:
  "f \<in> set (subChunks i chunk) \<Longrightarrow> length f \<le> maxChunkSize \<and> f \<noteq> []"
proof (induction i chunk rule: subChunks.induct)
  case (1 i chunk)
  show ?case
  proof (cases "i < length chunk")
    case True
    with "1.prems" have "f = slice chunk i (min (i + maxChunkSize) (length chunk))
        \<or> f \<in> set (subChunks (i + maxChunkSize) chunk)"
      by (simp add: subChunks.simps [of i])
    then show ?thesis
    proof
      assume "f = slice chunk i (min (i + maxChunkSize) (length chunk))"
      with True show ?thesis by (auto simp: slice_def maxChunkSize_def min_def)
    next
      assume "f \<in> set (subChunks (i + maxChunkSize) chunk)"
      with True "1.IH" show ?thesis by simp
    qed
  next
    case False
    with "1.prems" show ?thesis by (simp add: subChunks.simps [of i])
  qed
qed

lemma subChunks_nonempty: "i < length chunk \<Longrightarrow> subChunks i chunk \<noteq> []"
  by (simp add: subChunks.simps [of i])

lemma subChunks_5000: "length chunk = 5000 \<Longrightarrow> length (subChunks 0 chunk) = 5"
  by (simp add: subChunks.simps [of 0 chunk] subChunks.simps [of 1024 chunk]
      subChunks.simps [of 2048 chunk] subChunks.simps [of 3072 chunk]
      subChunks.simps [of 4096 chunk] subChunks.simps [of 5120 chunk] maxChunkSize_def)

lemma frames_of_cases:
  "readyState ws = OPEN \<Longrightarrow>
     frames_of ws chunk = (if length chunk > maxChunkSize then subChunks 0 chunk else [chunk])"
  by (simp add: frames_of_def stream_on_data_def)

lemma stream_on_data_readyState: "readyState (stream_on_data ws chunk) = readyState ws"
  by (simp add: stream_on_data_def)

lemma stream_on_data_sent:
  "readyState ws = OPEN \<Longrightarrow> sent (stream_on_data ws chunk) = sent ws @ frames_of ws chunk"
  by (simp add: frames_of_def stream_on_data_def)

lemma frames_of_concat: "readyState ws = OPEN \<Longrightarrow> concat (frames_of ws chunk) = chunk"
  by (simp add: frames_of_cases subChunks_concat)

lemma fold_stream_on_data_concat:
  "readyState ws = OPEN \<Longrightarrow>
     concat (sent (fold (\<lambda>chunk w. stream_on_data w chunk) chunks ws))
       = concat (sent ws) @ concat chunks"
proof (induction chunks arbitrary: ws)
  case Nil
  then show ?case by simp
next
  case (Cons c cs)
  have "readyState (stream_on_data ws c) = OPEN"
    using Cons.prems by (simp add: stream_on_data_readyState)
  from Cons.IH [OF this] show ?case
    using Cons.prems by (simp add: stream_on_data_sent frames_of_concat)
qed

text \<open>
  C6. While the websocket is open, a chunk read from the process channel is sent as one
  or more frames of at most 1024 bytes each, appended after the frames already sent,
  whose concatenation is the chunk; 5000 bytes make 5 frames; and over any sequence of
  chunks the bytes sent are the bytes read, in order.
\<close>

theorem stream_on_data_chunked:
  "readyState ws = OPEN \<Longrightarrow>
     frames_of ws chunk \<noteq> []
     \<and> (\<forall>f \<in> set (frames_of ws chunk). length f \<le> 1024)
     \<and> concat (frames_of ws chunk) = chunk
     \<and> sent (stream_on_data ws chunk) = sent ws @ frames_of ws chunk
     \<and> (length chunk = 5000 \<longrightarrow> length (frames_of ws chunk) = 5)
     \<and> concat (sent (fold (\<lambda>chunk w. stream_on_data w chunk) chunks ws))
         = concat (sent ws) @ concat chunks"
proof -
  assume op: "readyState ws = OPEN"
  have ne: "frames_of ws chunk \<noteq> []"
  proof (cases "length chunk > maxChunkSize")
    case True
    then have "0 < length chunk" by (rule le_less_trans [OF le0])
    from subChunks_nonempty [OF this] True op show ?thesis by (simp add: frames_of_cases)
  next
    case False
    with op show ?thesis by (simp add: frames_of_cases)
  qed
  have bound: "\<forall>f \<in> set (frames_of ws chunk). length f \<le> 1024"
  proof
    fix f assume "f \<in> set (frames_of ws chunk)"
    then show "length f \<le> 1024"
      using op subChunks_bound [of f 0 chunk]
      by (auto simp: frames_of_cases maxChunkSize_def split: if_splits)
  qed
  have five: "length chunk = 5000 \<longrightarrow> length (frames_of ws chunk) = 5"
    using op by (simp add: frames_of_cases subChunks_5000 maxChunkSize_def)
  show ?thesis
    using ne bound five frames_of_concat [OF op] stream_on_data_sent [OF op]
      fold_stream_on_data_concat [OF op] by blast
qed

theorem stream_on_data_chunked_witness:
  "readyState \<lparr>readyState = OPEN, sent = []\<rparr> = OPEN
   \<and> length (frames_of \<lparr>readyState = OPEN, sent = []\<rparr> (replicate 5000 7)) = 5
   \<and> list_all (\<lambda>f. length f \<le> 1024) (frames_of \<lparr>readyState = OPEN, sent = []\<rparr> (replicate 5000 7))
   \<and> concat (frames_of \<lparr>readyState = OPEN, sent = []\<rparr> (replicate 5000 7)) = replicate 5000 7"
  using stream_on_data_chunked [of "\<lparr>readyState = OPEN, sent = []\<rparr>" "replicate 5000 7" "[]"]
  by (simp add: list_all_iff)

section \<open>Input frames and the deny-list\<close>

lemma not_blocked_empty: "\<not> isCommandBlocked []"
  by code_simp

lemma blocked_terminator:
  "input = CR \<or> input = LF \<Longrightarrow> isCommandBlocked (trim (commandBuffer b)) \<Longrightarrow>
     stream_written (ws_on_message now input b) = stream_written b @ [blocked_notice]
     \<and> ws_sent (ws_on_message now input b) = ws_sent b"
  using not_blocked_empty
  by (auto simp: ws_on_message_def Let_def stream_write_def set_lastCommand_def)

lemma blocked_notice_starts_with_CR: "take 1 blocked_notice = CR"
  by (simp add: blocked_notice_def CR_def)

text \<open>
  C2. The keystrokes of "reboot" and then a carriage return, on a new connection: each
  keystroke is written to the stream, and at the carriage return the handler writes the
  notice to the stream as well. The notice begins with a carriage return, so the shell
  receives the line "reboot" completed; nothing is sent to the websocket.
\<close>

theorem blocked_notice_goes_to_the_shell:
  "stream_written
     (ws_on_messages 5 [''r'', ''e'', ''b'', ''o'', ''o'', ''t'', CR] (new_bridge example_session))
     = [''r'', ''e'', ''b'', ''o'', ''o'', ''t'', blocked_notice]
   \<and> ws_sent
       (ws_on_messages 5 [''r'', ''e'', ''b'', ''o'', ''o'', ''t'', CR] (new_bridge example_session))
     = []
   \<and> take 1 blocked_notice = CR"
  by code_simp

text \<open>
  C7 (amended). A frame that is exactly one carriage return or one newline empties the
  buffer, and what is written to the stream is decided by the deny-list check of the
  trimmed buffer: the notice if it is blocked; otherwise an interrupt and a line break
  if the buffer is "q" after a "top"; otherwise the frame itself.
\<close>

theorem terminator_frame_checks_and_resets:
  "input = CR \<or> input = LF \<Longrightarrow>
     commandBuffer (ws_on_message now input b) = []
     \<and> (isCommandBlocked (trim (commandBuffer b)) \<longrightarrow>
          stream_written (ws_on_message now input b) = stream_written b @ [blocked_notice])
     \<and> (\<not> isCommandBlocked (trim (commandBuffer b)) \<longrightarrow>
          trim (commandBuffer b) = ''q'' \<and> lastCommand (session_obj b) = Some ''top'' \<longrightarrow>
          stream_written (ws_on_message now input b) = stream_written b @ [[CHR 0x03], CR @ LF])
     \<and> (\<not> isCommandBlocked (trim (commandBuffer b)) \<longrightarrow>
          \<not> (trim (commandBuffer b) = ''q'' \<and> lastCommand (session_obj b) = Some ''top'') \<longrightarrow>
          stream_written (ws_on_message now input b) = stream_written b @ [input])"
  using not_blocked_empty
  by (auto simp: ws_on_message_def Let_def stream_write_def set_lastCommand_def)

theorem terminator_frame_checks_and_resets_witness:
  "commandBuffer (ws_on_message 5 CR ((new_bridge example_session)\<lparr>commandBuffer := ''reboot''\<rparr>)) = []
   \<and> isCommandBlocked (trim ''reboot'')
   \<and> stream_written (ws_on_message 5 CR ((new_bridge example_session)\<lparr>commandBuffer := ''reboot''\<rparr>))
       = [blocked_notice]
   \<and> \<not> isCommandBlocked (trim ''ls -l'')
   \<and> commandBuffer (ws_on_message 5 LF ((new_bridge example_session)\<lparr>commandBuffer := ''ls -l''\<rparr>)) = []
   \<and> stream_written (ws_on_message 5 LF ((new_bridge example_session)\<lparr>commandBuffer := ''ls -l''\<rparr>))
       = [LF]"
proof -
  have 1: "isCommandBlocked (trim ''reboot'')" by code_simp
  have 2: "\<not> isCommandBlocked (trim ''ls -l'')" by code_simp
  have 3: "trim ''ls -l'' \<noteq> ''q''" by code_simp
  show ?thesis
    using 1 2 3
      terminator_frame_checks_and_resets
        [of CR 5 "(new_bridge example_session)\<lparr>commandBuffer := ''reboot''\<rparr>"]
      terminator_frame_checks_and_resets
        [of LF 5 "(new_bridge example_session)\<lparr>commandBuffer := ''ls -l''\<rparr>"]
    by (simp add: new_bridge_def)
qed

text \<open>
  C7 as worded fails for a frame that contains a terminator among other characters:
  the frame "reboot" with a newline, on a new connection, is appended to the buffer and
  written to the stream whole, although the deny-list blocks the line.
\<close>

theorem frame_containing_terminator_counterexample:
  "commandBuffer (ws_on_message 5 (''reboot'' @ LF) (new_bridge example_session)) = ''reboot'' @ LF
   \<and> stream_written (ws_on_message 5 (''reboot'' @ LF) (new_bridge example_session))
       = [''reboot'' @ LF]
   \<and> isCommandBlocked (''reboot'' @ LF)"
proof -
  have "isCommandBlocked (''reboot'' @ LF)" by code_simp
  moreover have
    "commandBuffer (ws_on_message 5 (''reboot'' @ LF) (new_bridge example_session)) = ''reboot'' @ LF"
    by (simp add: ws_on_message_def Let_def stream_write_def new_bridge_def CR_def LF_def)
  moreover have
    "stream_written (ws_on_message 5 (''reboot'' @ LF) (new_bridge example_session)) = [''reboot'' @ LF]"
    by (simp add: ws_on_message_def Let_def stream_write_def new_bridge_def CR_def LF_def)
  ultimately show ?thesis by blast
qed

section \<open>Teardown and the registry\<close>

lemma cleanupSession_map_of:
  "map_of (activeSessions (cleanupSession rt sessionId srv))
     = (map_of (activeSessions srv))(sessionId := None)"
proof (cases "map_of (activeSessions srv) sessionId")
  case None
  then show ?thesis by (auto simp: cleanupSession_def)
next
  case (Some x)
  then show ?thesis
    by (auto simp: cleanupSession_def invoke_def Let_def AList.delete_conv' split: option.splits)
qed

lemma cleanupSession_absent_id:
  "map_of (activeSessions srv) sessionId = None \<Longrightarrow> cleanupSession rt sessionId srv = srv"
  by (simp add: cleanupSession_def)

lemma cleanupSession_calls:
  "map_of (activeSessions s) k = Some x \<Longrightarrow>
     \<exists>rest. calls (cleanupSession rt k s) = calls s @ ContainerStop (container x) # rest"
  by (auto simp: cleanupSession_def invoke_def Let_def split: option.splits)

lemma cleanupSession_calls_mono: "set (calls s) \<subseteq> set (calls (cleanupSession rt k s))"
  by (auto simp: cleanupSession_def invoke_def Let_def split: option.splits)

lemma sweep_step_map_of:
  "map_of (activeSessions (sweep_step rt now (k', x') s)) k
     = (if k = k' \<and> now - lastActivity x' > 30 * 60 * 1000 then None
        else map_of (activeSessions s) k)"
  by (simp add: sweep_step_def cleanupSession_map_of)

lemma sweep_step_calls_mono: "set (calls s) \<subseteq> set (calls (sweep_step rt now e s))"
  using cleanupSession_calls_mono [of s rt "fst e"]
  by (cases e) (simp add: sweep_step_def)

lemma sweep_fold_map_of:
  "map_of (activeSessions (fold (sweep_step rt now) es s)) k
   = (if \<exists>x. (k, x) \<in> set es \<and> now - lastActivity x > 30 * 60 * 1000
      then None else map_of (activeSessions s) k)"
proof (induction es arbitrary: s)
  case Nil
  then show ?case by simp
next
  case (Cons e es)
  obtain k' x' where e: "e = (k', x')" by (cases e)
  have "map_of (activeSessions (fold (sweep_step rt now) (e # es) s)) k
          = (if \<exists>x. (k, x) \<in> set es \<and> now - lastActivity x > 30 * 60 * 1000
             then None else map_of (activeSessions (sweep_step rt now (k', x') s)) k)"
    unfolding e using Cons.IH [of "sweep_step rt now (k', x') s"] by simp
  also have "\<dots> = (if \<exists>x. (k, x) \<in> set (e # es) \<and> now - lastActivity x > 30 * 60 * 1000
             then None else map_of (activeSessions s) k)"
    unfolding e sweep_step_map_of by auto
  finally show ?case .
qed

lemma sweep_fold_calls_mono:
  "set (calls s) \<subseteq> set (calls (fold (sweep_step rt now) es s))"
proof (induction es arbitrary: s)
  case Nil
  then show ?case by simp
next
  case (Cons e es)
  show ?case
    using Cons.IH [of "sweep_step rt now e s"] sweep_step_calls_mono [of s rt now e]
    by auto
qed

lemma sweep_fold_stop:
  "distinct (map fst es) \<Longrightarrow> \<forall>(k', x') \<in> set es. map_of (activeSessions s) k' = Some x' \<Longrightarrow>
   (k, x) \<in> set es \<Longrightarrow> now - lastActivity x > 30 * 60 * 1000 \<Longrightarrow>
     ContainerStop (container x) \<in> set (calls (fold (sweep_step rt now) es s))"
proof (induction es arbitrary: s)
  case Nil
  then show ?case by simp
next
  case (Cons e es)
  obtain k' x' where e: "e = (k', x')" by (cases e)
  show ?case
  proof (cases "(k, x) = (k', x')")
    case True
    have "map_of (activeSessions s) k = Some x" using Cons.prems(2) True e by auto
    from cleanupSession_calls [OF this, of rt]
    have "ContainerStop (container x) \<in> set (calls (cleanupSession rt k s))" by auto
    moreover have "sweep_step rt now e s = cleanupSession rt k s"
      using True e Cons.prems(4) by (simp add: sweep_step_def)
    ultimately show ?thesis
      using sweep_fold_calls_mono [of "sweep_step rt now e s" rt now es] by auto
  next
    case False
    then have mem: "(k, x) \<in> set es" using Cons.prems(3) e by auto
    have dist: "distinct (map fst es)" using Cons.prems(1) by simp
    have notin: "k' \<notin> fst ` set es" using Cons.prems(1) e by simp
    have keep: "\<forall>(k'', x'') \<in> set es.
        map_of (activeSessions (sweep_step rt now e s)) k'' = Some x''"
      unfolding e sweep_step_map_of using Cons.prems(2) notin by force
    show ?thesis
      using Cons.IH [OF dist keep mem Cons.prems(4)] by simp
  qed
qed

lemma reaper_sweep_map_of:
  assumes "distinct (map fst (activeSessions srv))"
    and "map_of (activeSessions srv) k = Some x"
  shows "map_of (activeSessions (reaper_sweep rt now srv)) k
           = (if now - lastActivity x > 30 * 60 * 1000 then None else Some x)"
proof -
  have "\<And>y. (k, y) \<in> set (activeSessions srv) \<longleftrightarrow> y = x"
    using assms by (metis map_of_eq_Some_iff option.inject)
  then show ?thesis
    unfolding reaper_sweep_def sweep_fold_map_of using assms(2) by simp
qed

lemma reaper_sweep_stop:
  assumes "distinct (map fst (activeSessions srv))"
    and "map_of (activeSessions srv) k = Some x"
    and "now - lastActivity x > 30 * 60 * 1000"
  shows "ContainerStop (container x) \<in> set (calls (reaper_sweep rt now srv))"
  unfolding reaper_sweep_def
proof (rule sweep_fold_stop [OF assms(1) _ _ assms(3)])
  show "\<forall>(k', x') \<in> set (activeSessions srv). map_of (activeSessions srv) k' = Some x'"
    using assms(1) by auto
  show "(k, x) \<in> set (activeSessions srv)"
    using assms(1,2) by simp
qed

text \<open>
  C4. Whatever the runtime answers to \<^verbatim>\<open>stop\<close> and \<^verbatim>\<open>remove\<close>, the registry has no
  entry for the id after \<open>cleanupSession\<close>, so after an explicit deletion; and a sweep
  of the reaper over a registry with one entry per id leaves exactly the sessions that
  are not idle for more than 30 minutes, having called \<^verbatim>\<open>stop\<close> for each idle one.
\<close>

theorem cleanup_always_unregisters:
  "map_of (activeSessions (cleanupSession rt sessionId srv)) sessionId = None
   \<and> map_of (activeSessions (snd (app_delete rt sessionId srv))) sessionId = None
   \<and> (distinct (map fst (activeSessions srv)) \<longrightarrow> map_of (activeSessions srv) k = Some x \<longrightarrow>
        map_of (activeSessions (reaper_sweep rt now srv)) k
          = (if now - lastActivity x > 30 * 60 * 1000 then None else Some x)
        \<and> (now - lastActivity x > 30 * 60 * 1000 \<longrightarrow>
             ContainerStop (container x) \<in> set (calls (reaper_sweep rt now srv))))"
  using reaper_sweep_map_of [of srv k x rt now] reaper_sweep_stop [of srv k x now rt]
  by (simp add: cleanupSession_map_of app_delete_def)

theorem cleanup_always_unregisters_witness:
  "distinct (map fst (activeSessions example_registry))
   \<and> map_of (activeSessions example_registry) ''b'' \<noteq> None
   \<and> 32 * 60 * 1000 - lastActivity example_session > 30 * 60 * 1000
   \<and> map_of (activeSessions (cleanupSession runtime_failing ''a'' example_registry)) ''a'' = None
   \<and> map_of (activeSessions (reaper_sweep runtime_failing (32 * 60 * 1000) example_registry)) ''a'' = None
   \<and> map_of (activeSessions (reaper_sweep runtime_failing (32 * 60 * 1000) example_registry)) ''b'' = None
   \<and> map_of (activeSessions (reaper_sweep runtime_failing (32 * 60 * 1000) example_registry)) ''c''
       = map_of (activeSessions example_registry) ''c''
   \<and> ContainerStop 4 \<in> set (calls (reaper_sweep runtime_failing (32 * 60 * 1000) example_registry))"
  using
    cleanup_always_unregisters [of runtime_failing "''a''" example_registry "''a''"
      example_session "32 * 60 * 1000"]
    cleanup_always_unregisters [of runtime_failing "''a''" example_registry "''b''"
      "example_session\<lparr>container := 4, exec := None, stream := None\<rparr>" "32 * 60 * 1000"]
    cleanup_always_unregisters [of runtime_failing "''a''" example_registry "''c''"
      "example_session\<lparr>container := 5, lastActivity := 31 * 60 * 1000, exec := None, stream := None\<rparr>"
      "32 * 60 * 1000"]
  by (simp add: example_registry_def example_session_def)

text \<open>
  C5 (amended). In server3.js every call of terminate returns success, a second call
  changes nothing, and no entry remains after either call. In server.js a call for an
  id that is not in the registry, so a second call, returns 404 "Session not found" and
  changes nothing; no entry remains after either call.
\<close>

theorem terminate_twice:
  "fst (app_delete rt sessionId srv) = Message ''Session terminated successfully''
   \<and> map_of (activeSessions (snd (app_delete rt sessionId srv))) sessionId = None
   \<and> app_delete rt' sessionId (snd (app_delete rt sessionId srv))
       = (Message ''Session terminated successfully'', snd (app_delete rt sessionId srv))
   \<and> map_of (activeSessions (snd (app_delete_v1 rt sessionId srv1))) sessionId = None
   \<and> app_delete_v1 rt' sessionId (snd (app_delete_v1 rt sessionId srv1))
       = (Error 404 ''Session not found'', snd (app_delete_v1 rt sessionId srv1))"
  by (simp add: app_delete_def app_delete_v1_def cleanupSession_map_of cleanupSession_absent_id)

text \<open>
  C5 as worded fails in server.js: a session is created and terminated, and the second
  call of terminate answers 404.
\<close>

theorem terminate_twice_v1_counterexample:
  "fst (app_post_sessions_v1 runtime_ok 0 ''a'' empty_server_v1) = SessionCreated ''a''
   \<and> fst (app_delete_v1 runtime_ok ''a'' (snd (app_post_sessions_v1 runtime_ok 0 ''a'' empty_server_v1)))
       = Message ''Session terminated successfully''
   \<and> fst (app_delete_v1 runtime_ok ''a''
        (snd (app_delete_v1 runtime_ok ''a''
          (snd (app_post_sessions_v1 runtime_ok 0 ''a'' empty_server_v1)))))
       = Error 404 ''Session not found''"
  by (simp add: app_post_sessions_v1_def app_delete_v1_def cleanupSession_def invoke_def
      runtime_ok_def empty_server_v1_def)

section \<open>Resize and status\<close>

text \<open>
  C8 (amended). A resize for an unknown id answers 404; for a session without a process
  channel it answers success and changes nothing; with a process channel the runtime's
  resize is called once, with the rows and columns of the request: if it resolves, the
  answer is success and the dimensions of the session are those of the request; if it
  rejects, the answer is 500 and the dimensions are unchanged. The status query of
  server.js reports the id, \<open>active\<close> and \<open>lastActivity\<close>, not the dimensions.
\<close>

theorem resize_cases:
  "(map_of (activeSessions srv) sessionId = None \<longrightarrow>
      app_post_resize rt sessionId cols rows srv = (Error 404 ''Session not found'', srv))
   \<and> (map_of (activeSessions srv) sessionId = Some x \<and> exec x = None \<longrightarrow>
      app_post_resize rt sessionId cols rows srv = (Message ''Terminal resized'', srv))
   \<and> (map_of (activeSessions srv) sessionId = Some x \<and> exec x = Some e
        \<and> rt (calls srv) (ExecResize e rows cols) \<noteq> None \<longrightarrow>
      fst (app_post_resize rt sessionId cols rows srv) = Message ''Terminal resized''
      \<and> calls (snd (app_post_resize rt sessionId cols rows srv))
          = calls srv @ [ExecResize e rows cols]
      \<and> map_of (activeSessions (snd (app_post_resize rt sessionId cols rows srv))) sessionId
          = Some (x\<lparr>dimensions := (cols, rows)\<rparr>))
   \<and> (map_of (activeSessions srv) sessionId = Some x \<and> exec x = Some e
        \<and> rt (calls srv) (ExecResize e rows cols) = None \<longrightarrow>
      fst (app_post_resize rt sessionId cols rows srv) = Error 500 ''Failed to resize terminal''
      \<and> calls (snd (app_post_resize rt sessionId cols rows srv))
          = calls srv @ [ExecResize e rows cols]
      \<and> activeSessions (snd (app_post_resize rt sessionId cols rows srv)) = activeSessions srv)
   \<and> (map_of (activeSessions srv) sessionId = Some x \<longrightarrow>
      app_get sessionId (snd (app_post_resize rt sessionId cols rows srv))
        = SessionStatus sessionId True (lastActivity x))"
  by (auto simp: app_post_resize_def invoke_def app_get_def AList.update_conv' split: option.splits)

theorem resize_cases_witness:
  "app_post_resize runtime_ok ''zz'' 120 40 example_registry
     = (Error 404 ''Session not found'', example_registry)
   \<and> app_post_resize runtime_ok ''b'' 120 40 example_registry
     = (Message ''Terminal resized'', example_registry)
   \<and> fst (app_post_resize runtime_ok ''a'' 120 40 example_registry) = Message ''Terminal resized''
   \<and> calls (snd (app_post_resize runtime_ok ''a'' 120 40 example_registry)) = [ExecResize 2 40 120]
   \<and> map_of (activeSessions (snd (app_post_resize runtime_ok ''a'' 120 40 example_registry))) ''a''
       = Some (example_session\<lparr>dimensions := (120, 40)\<rparr>)
   \<and> app_get ''a'' (snd (app_post_resize runtime_ok ''a'' 120 40 example_registry))
       = SessionStatus ''a'' True 0
   \<and> fst (app_post_resize runtime_failing ''a'' 120 40 example_registry)
       = Error 500 ''Failed to resize terminal''"
  using
    resize_cases [of example_registry "''zz''" runtime_ok 120 40 example_session 2]
    resize_cases [of example_registry "''b''" runtime_ok 120 40
      "example_session\<lparr>container := 4, exec := None, stream := None\<rparr>" 2]
    resize_cases [of example_registry "''a''" runtime_ok 120 40 example_session 2]
    resize_cases [of example_registry "''a''" runtime_failing 120 40 example_session 2]
  by (simp add: example_registry_def example_session_def runtime_ok_def runtime_failing_def)

text \<open>
  C8 as worded fails where the runtime rejects the resize of an active channel: the
  answer is 500 and the session keeps its dimensions, 80 by 24.
\<close>

theorem resize_rejected_counterexample:
  "map_option exec (map_of (activeSessions example_registry) ''a'') = Some (Some 2)
   \<and> fst (app_post_resize runtime_failing ''a'' 120 40 example_registry)
       = Error 500 ''Failed to resize terminal''
   \<and> map_option dimensions
       (map_of (activeSessions (snd (app_post_resize runtime_failing ''a'' 120 40 example_registry))) ''a'')
       = Some (80, 24)"
  by (simp add: app_post_resize_def invoke_def example_registry_def example_session_def
      runtime_failing_def)

section \<open>The security posture of a new container\<close>

text \<open>
  C3 (amended). Every session creation passes one fixed posture to the runtime. Both
  variants drop all capabilities. server3.js adds back AUDIT_WRITE, CHOWN,
  DAC_OVERRIDE, SETGID, SETUID, NET_BIND_SERVICE and SYS_ADMIN and passes the
  security options no-new-privileges:false and seccomp=unconfined; server.js adds back
  NET_ADMIN and passes no-new-privileges.
\<close>

theorem create_security_posture:
  "List.map_filter created_with (calls (snd (app_post_sessions rt now sessionId cols rows srv)))
     = List.map_filter created_with (calls srv) @ [hostConfig_v3]
   \<and> CapDrop hostConfig_v3 = [''ALL'']
   \<and> CapAdd hostConfig_v3 = [''AUDIT_WRITE'', ''CHOWN'', ''DAC_OVERRIDE'', ''SETGID'', ''SETUID'',
                              ''NET_BIND_SERVICE'', ''SYS_ADMIN'']
   \<and> SecurityOpt hostConfig_v3 = [''no-new-privileges:false'', ''seccomp=unconfined'']
   \<and> List.map_filter created_with (calls (snd (app_post_sessions_v1 rt now sessionId srv1)))
     = List.map_filter created_with (calls srv1) @ [hostConfig_v1]
   \<and> CapDrop hostConfig_v1 = [''ALL'']
   \<and> CapAdd hostConfig_v1 = [''NET_ADMIN'']
   \<and> SecurityOpt hostConfig_v1 = [''no-new-privileges'']"
proof -
  have "List.map_filter created_with (calls (snd (app_post_sessions rt now sessionId cols rows srv)))
          = List.map_filter created_with (calls srv) @ [hostConfig_v3]"
    by (auto simp: app_post_sessions_def invoke_def created_with_def List.map_filter_def
        split: option.splits)
  moreover have
    "List.map_filter created_with (calls (snd (app_post_sessions_v1 rt now sessionId srv1)))
          = List.map_filter created_with (calls srv1) @ [hostConfig_v1]"
    by (auto simp: app_post_sessions_v1_def invoke_def created_with_def List.map_filter_def
        split: option.splits)
  ultimately show ?thesis by (simp add: hostConfig_v3_def hostConfig_v1_def)
qed

text \<open>
  C3 as worded fails: the posture server3.js passes for a new session grants SYS_ADMIN
  and switches no-new-privileges off, and the one server.js passes grants NET_ADMIN.
\<close>

theorem create_security_posture_counterexample:
  "CreateContainer hostConfig_v3
     \<in> set (calls (snd (app_post_sessions runtime_ok 0 ''a'' 80 24 \<lparr>activeSessions = [], calls = []\<rparr>)))
   \<and> ''SYS_ADMIN'' \<in> set (CapAdd hostConfig_v3)
   \<and> ''no-new-privileges:false'' \<in> set (SecurityOpt hostConfig_v3)
   \<and> CreateContainer hostConfig_v1
     \<in> set (calls (snd (app_post_sessions_v1 runtime_ok 0 ''a'' empty_server_v1)))
   \<and> ''NET_ADMIN'' \<in> set (CapAdd hostConfig_v1)"
  by (simp add: app_post_sessions_def app_post_sessions_v1_def invoke_def runtime_ok_def
      empty_server_v1_def hostConfig_v3_def hostConfig_v1_def)

section \<open>Connections to one session\<close>

lemma connection_accepted:
  assumes "map_of (activeSessions h) sessionId = Some x"
    and "rt (calls h) (ContainerExec (container x)) = Some e"
    and "rt (calls h @ [ContainerExec (container x)]) (ExecStart e) = Some st"
  shows "links (wss_on_connection rt ws sessionId h)
           = links h @ [\<lparr>link_ws = ws, link_session = sessionId, link_exec = e, link_stream = st\<rparr>]"
    and "closed_ws (wss_on_connection rt ws sessionId h) = closed_ws h"
    and "ended_streams (wss_on_connection rt ws sessionId h) = ended_streams h"
    and "map_of (activeSessions (wss_on_connection rt ws sessionId h)) sessionId
           = Some (x\<lparr>exec := Some e, stream := Some st\<rparr>)"
  using assms by (simp_all add: wss_on_connection_def invoke_def AList.update_conv')

lemma ws_on_close_retires:
  "l \<in> set (live_bridges sessionId (ws_on_close ws h)) \<Longrightarrow> link_ws l \<noteq> ws"
  by (auto simp: live_bridges_def ws_on_close_def ws_close_def)

text \<open>
  C9 (amended). A connection for a known session whose exec instance is created and
  started is accepted whether or not the session has a live bridge: no websocket is
  closed and no stream is ended by it, the session's \<open>exec\<close> and \<open>stream\<close> become the
  new ones, and with a websocket that is open and a stream that has not ended the live
  bridges of the session are those it had and the new one.
\<close>

theorem connection_adds_a_bridge:
  assumes "map_of (activeSessions h) sessionId = Some x"
    and "rt (calls h) (ContainerExec (container x)) = Some e"
    and "rt (calls h @ [ContainerExec (container x)]) (ExecStart e) = Some st"
    and "ws \<notin> set (closed_ws h)" and "st \<notin> set (ended_streams h)"
  shows "live_bridges sessionId (wss_on_connection rt ws sessionId h)
           = live_bridges sessionId h
               @ [\<lparr>link_ws = ws, link_session = sessionId, link_exec = e, link_stream = st\<rparr>]
         \<and> closed_ws (wss_on_connection rt ws sessionId h) = closed_ws h
         \<and> ended_streams (wss_on_connection rt ws sessionId h) = ended_streams h
         \<and> map_of (activeSessions (wss_on_connection rt ws sessionId h)) sessionId
             = Some (x\<lparr>exec := Some e, stream := Some st\<rparr>)"
  using assms connection_accepted [OF assms(1-3), of ws]
  by (simp add: live_bridges_def)

theorem connection_adds_a_bridge_witness:
  "live_bridges ''b'' (wss_on_connection runtime_ok 10 ''b'' example_hub)
     = [\<lparr>link_ws = 10, link_session = ''b'', link_exec = 0, link_stream = 1\<rparr>]
   \<and> live_bridges ''b''
       (wss_on_connection runtime_ok 11 ''b'' (wss_on_connection runtime_ok 10 ''b'' example_hub))
     = live_bridges ''b'' (wss_on_connection runtime_ok 10 ''b'' example_hub)
         @ [\<lparr>link_ws = 11, link_session = ''b'', link_exec = 2, link_stream = 3\<rparr>]"
proof -
  let ?x = "example_session\<lparr>container := 4, exec := None, stream := None\<rparr>"
  let ?h1 = "wss_on_connection runtime_ok 10 ''b'' example_hub"
  have h1: "?h1 = example_hub
      \<lparr>activeSessions := [(''b'', ?x\<lparr>exec := Some 0, stream := Some 1\<rparr>)],
       calls := [ContainerExec 4, ExecStart 0],
       links := [\<lparr>link_ws = 10, link_session = ''b'', link_exec = 0, link_stream = 1\<rparr>]\<rparr>"
    by (simp add: wss_on_connection_def invoke_def runtime_ok_def example_hub_def
        example_session_def)
  have first: "live_bridges ''b'' ?h1
      = [\<lparr>link_ws = 10, link_session = ''b'', link_exec = 0, link_stream = 1\<rparr>]"
    unfolding h1 by (simp add: live_bridges_def example_hub_def)
  have "live_bridges ''b'' (wss_on_connection runtime_ok 11 ''b'' ?h1)
      = live_bridges ''b'' ?h1
          @ [\<lparr>link_ws = 11, link_session = ''b'', link_exec = 2, link_stream = 3\<rparr>]"
    using connection_adds_a_bridge
      [of ?h1 "''b''" "?x\<lparr>exec := Some 0, stream := Some 1\<rparr>" runtime_ok 2 3 11]
    unfolding h1 by (simp add: runtime_ok_def example_hub_def example_session_def)
  with first show ?thesis by simp
qed

text \<open>
  C9 as worded fails: two connections for the same session, one after the other, on
  websockets 10 and 11. Both are accepted, no websocket is closed and no stream is
  ended, and the session has two live bridges.
\<close>

theorem two_live_bridges_counterexample:
  "length (live_bridges ''b''
     (wss_on_connection runtime_ok 11 ''b'' (wss_on_connection runtime_ok 10 ''b'' example_hub))) = 2
   \<and> closed_ws
       (wss_on_connection runtime_ok 11 ''b'' (wss_on_connection runtime_ok 10 ''b'' example_hub)) = []
   \<and> ended_streams
       (wss_on_connection runtime_ok 11 ''b'' (wss_on_connection runtime_ok 10 ''b'' example_hub)) = []"
  by (simp add: wss_on_connection_def invoke_def runtime_ok_def example_hub_def
      example_session_def live_bridges_def)

section \<open>The 30 minute timer of server.js\<close>

lemma timeout_callback_map_of:
  "map_of (activeSessions (timeout_callback rt k s)) = (map_of (activeSessions s))(k := None)"
  by (auto simp: timeout_callback_def cleanupSession_map_of)

lemma timeout_callback_calls_mono:
  "set (calls s) \<subseteq> set (calls (timeout_callback rt k s))"
  using cleanupSession_calls_mono [of s rt k] by (simp add: timeout_callback_def)

lemma fold_fire_calls_mono: "set (calls s) \<subseteq> set (calls (fold (fire rt) ts s))"
proof (induction ts arbitrary: s)
  case Nil
  then show ?case by simp
next
  case (Cons t ts)
  show ?case
    using Cons.IH [of "fire rt t s"] timeout_callback_calls_mono [of s rt "snd t"]
    by (auto simp: fire_def)
qed

lemma fold_fire_map_of:
  "map_of (activeSessions (fold (fire rt) ts s)) k
     = (if k \<in> snd ` set ts then None else map_of (activeSessions s) k)"
proof (induction ts arbitrary: s)
  case Nil
  then show ?case by simp
next
  case (Cons t ts)
  show ?case
    using Cons.IH [of "fire rt t s"] by (simp add: fire_def timeout_callback_map_of)
qed

lemma fold_fire_stop:
  "map_of (activeSessions s) k = Some x \<Longrightarrow> k \<in> snd ` set ts \<Longrightarrow>
     ContainerStop (container x) \<in> set (calls (fold (fire rt) ts s))"
proof (induction ts arbitrary: s)
  case Nil
  then show ?case by simp
next
  case (Cons t ts)
  show ?case
  proof (cases "snd t = k")
    case True
    from cleanupSession_calls [OF Cons.prems(1), of rt]
    have "ContainerStop (container x) \<in> set (calls (fire rt t s))"
      using Cons.prems(1) True by (auto simp: fire_def timeout_callback_def)
    then show ?thesis
      using fold_fire_calls_mono [of "fire rt t s" rt ts] by auto
  next
    case False
    then have "map_of (activeSessions (fire rt t s)) k = Some x"
      using Cons.prems(1) by (simp add: fire_def timeout_callback_map_of)
    moreover have "k \<in> snd ` set ts" using Cons.prems(2) False by auto
    ultimately show ?thesis using Cons.IH by simp
  qed
qed

lemma run_timers_map_of:
  "(due, k) \<in> set (timers s) \<Longrightarrow> due \<le> now \<Longrightarrow>
     map_of (activeSessions (run_timers rt now s)) k = None"
  unfolding run_timers_def fold_fire_map_of by force

lemma run_timers_stop:
  assumes "(due, k) \<in> set (timers s)" and "due \<le> now"
    and "map_of (activeSessions s) k = Some x"
  shows "ContainerStop (container x) \<in> set (calls (run_timers rt now s))"
  unfolding run_timers_def
proof (rule fold_fire_stop)
  show "map_of (activeSessions (s\<lparr>timers := filter (\<lambda>timer. \<not> fst timer \<le> now) (timers s)\<rparr>)) k
          = Some x"
    using assms(3) by simp
  show "k \<in> snd ` set (filter (\<lambda>timer. fst timer \<le> now) (timers s))"
    using assms(1,2) by force
qed

lemma cleanupSession_calls_exact:
  "map_of (activeSessions s) k = Some x \<Longrightarrow>
     calls (cleanupSession rt k s)
       = calls s @ ContainerStop (container x)
           # (case rt (calls s) (ContainerStop (container x)) of
                None \<Rightarrow> []
              | Some _ \<Rightarrow> [ContainerRemove (container x)])"
  by (auto simp: cleanupSession_def invoke_def Let_def split: option.splits)

lemma timeout_callback_calls_ext: "\<exists>ext. calls (timeout_callback rt k s) = calls s @ ext"
  by (auto simp: timeout_callback_def cleanupSession_def invoke_def Let_def split: option.splits)

lemma fold_fire_calls_ext: "\<exists>ext. calls (fold (fire rt) ts s) = calls s @ ext"
proof (induction ts arbitrary: s)
  case Nil
  then show ?case by simp
next
  case (Cons t ts)
  obtain ext1 where 1: "calls (fire rt t s) = calls s @ ext1"
    using timeout_callback_calls_ext [of rt "snd t" s] by (auto simp: fire_def)
  obtain ext2 where 2: "calls (fold (fire rt) ts (fire rt t s)) = calls (fire rt t s) @ ext2"
    using Cons.IH [of "fire rt t s"] by blast
  show ?case using 1 2 by simp
qed

lemma fold_fire_stop_remove:
  "map_of (activeSessions s) k = Some x \<Longrightarrow> k \<in> snd ` set ts \<Longrightarrow>
     \<exists>pre rest. calls (fold (fire rt) ts s) = pre @ ContainerStop (container x) # rest
       \<and> (rt pre (ContainerStop (container x)) \<noteq> None
            \<longrightarrow> (\<exists>post. rest = ContainerRemove (container x) # post))"
proof (induction ts arbitrary: s)
  case Nil
  then show ?case by simp
next
  case (Cons t ts)
  show ?case
  proof (cases "snd t = k")
    case True
    let ?tail = "case rt (calls s) (ContainerStop (container x)) of
                   None \<Rightarrow> [] | Some _ \<Rightarrow> [ContainerRemove (container x)]"
    have fired: "calls (fire rt t s) = calls s @ ContainerStop (container x) # ?tail"
      using cleanupSession_calls_exact [OF Cons.prems(1), of rt] Cons.prems(1) True
      by (simp add: fire_def timeout_callback_def)
    obtain ext where "calls (fold (fire rt) ts (fire rt t s)) = calls (fire rt t s) @ ext"
      using fold_fire_calls_ext [of rt ts "fire rt t s"] by blast
    with fired have all: "calls (fold (fire rt) (t # ts) s)
        = calls s @ ContainerStop (container x) # (?tail @ ext)"
      by simp
    have "rt (calls s) (ContainerStop (container x)) \<noteq> None
            \<longrightarrow> (\<exists>post. ?tail @ ext = ContainerRemove (container x) # post)"
      by (auto split: option.splits)
    with all show ?thesis by blast
  next
    case False
    then have "map_of (activeSessions (fire rt t s)) k = Some x"
      using Cons.prems(1) by (simp add: fire_def timeout_callback_map_of)
    moreover have "k \<in> snd ` set ts" using Cons.prems(2) False by auto
    ultimately show ?thesis using Cons.IH [of "fire rt t s"] by simp
  qed
qed

lemma run_timers_stop_remove:
  assumes "(due, k) \<in> set (timers s)" and "due \<le> now"
    and "map_of (activeSessions s) k = Some x"
  shows "\<exists>pre rest. calls (run_timers rt now s) = pre @ ContainerStop (container x) # rest
       \<and> (rt pre (ContainerStop (container x)) \<noteq> None
            \<longrightarrow> (\<exists>post. rest = ContainerRemove (container x) # post))"
  unfolding run_timers_def
proof (rule fold_fire_stop_remove)
  show "map_of (activeSessions (s\<lparr>timers := filter (\<lambda>timer. \<not> fst timer \<le> now) (timers s)\<rparr>)) k
          = Some x"
    using assms(3) by simp
  show "k \<in> snd ` set (filter (\<lambda>timer. fst timer \<le> now) (timers s))"
    using assms(1,2) by force
qed

lemma ws_on_message_v1_keeps:
  "timers (ws_on_message_v1 t k st cmd s) = timers s"
  "map_option container (map_of (activeSessions (ws_on_message_v1 t k st cmd s)) k')
     = map_option container (map_of (activeSessions s) k')"
  by (auto simp: ws_on_message_v1_def Let_def AList.update_conv' split: option.splits)

lemma client_activity_keeps:
  "timers (client_activity frames s) = timers s
   \<and> map_option container (map_of (activeSessions (client_activity frames s)) k')
       = map_option container (map_of (activeSessions s) k')"
  unfolding client_activity_def
proof (induction frames arbitrary: s)
  case Nil
  then show ?case by simp
next
  case (Cons a as)
  obtain t k st cmd where a: "a = (t, k, st, cmd)" by (cases a)
  show ?case
    using Cons.IH [of "client_frame a s"]
    by (simp add: a client_frame_def ws_on_message_v1_keeps)
qed

lemma created_v1:
  assumes "fst (app_post_sessions_v1 rt t0 sessionId srv) = SessionCreated sid'"
  shows "\<exists>c. map_option container
               (map_of (activeSessions (snd (app_post_sessions_v1 rt t0 sessionId srv))) sessionId)
             = Some c"
    and "timers (snd (app_post_sessions_v1 rt t0 sessionId srv))
           = timers srv @ [(t0 + 30 * 60 * 1000, sessionId)]"
  using assms
  by (auto simp: app_post_sessions_v1_def invoke_def AList.update_conv' split: option.splits)

text \<open>
  C10. A session that server.js has created at time \<open>t0\<close> has a timer due at \<open>t0\<close> plus
  30 minutes. Whatever frames clients send afterwards, at whatever times, the timer
  stays armed and the session registered; and once the clock has reached the due time
  the callback has called \<^verbatim>\<open>stop\<close> on the session's container, has called
  \<^verbatim>\<open>remove\<close> on it right after the \<^verbatim>\<open>stop\<close> where the runtime resolved the
  \<^verbatim>\<open>stop\<close>, and the registry has no entry for the session.
\<close>

theorem timer_ends_session_whatever_the_activity:
  assumes "fst (app_post_sessions_v1 rt t0 sessionId srv) = SessionCreated sessionId"
    and "t0 + 30 * 60 * 1000 \<le> now"
  shows "(t0 + 30 * 60 * 1000, sessionId)
           \<in> set (timers (client_activity frames (snd (app_post_sessions_v1 rt t0 sessionId srv))))
     \<and> (\<exists>x. map_of (activeSessions
                (client_activity frames (snd (app_post_sessions_v1 rt t0 sessionId srv)))) sessionId
              = Some x
            \<and> ContainerStop (container x)
                \<in> set (calls (run_timers rt' now
                    (client_activity frames (snd (app_post_sessions_v1 rt t0 sessionId srv)))))
            \<and> (\<exists>pre rest.
                  calls (run_timers rt' now
                    (client_activity frames (snd (app_post_sessions_v1 rt t0 sessionId srv))))
                    = pre @ ContainerStop (container x) # rest
                  \<and> (rt' pre (ContainerStop (container x)) \<noteq> None
                       \<longrightarrow> (\<exists>post. rest = ContainerRemove (container x) # post))))
     \<and> map_of (activeSessions (run_timers rt' now
           (client_activity frames (snd (app_post_sessions_v1 rt t0 sessionId srv))))) sessionId
         = None"
proof -
  let ?s1 = "snd (app_post_sessions_v1 rt t0 sessionId srv)"
  let ?s2 = "client_activity frames ?s1"
  have tm: "(t0 + 30 * 60 * 1000, sessionId) \<in> set (timers ?s2)"
    using created_v1(2) [OF assms(1)] client_activity_keeps [of frames ?s1 sessionId] by simp
  obtain c where "map_option container (map_of (activeSessions ?s1) sessionId) = Some c"
    using created_v1(1) [OF assms(1)] by blast
  then have "map_option container (map_of (activeSessions ?s2) sessionId) = Some c"
    using client_activity_keeps [of frames ?s1 sessionId] by simp
  then obtain x where x: "map_of (activeSessions ?s2) sessionId = Some x" by auto
  show ?thesis
    using tm x run_timers_stop [OF tm assms(2) x, of rt']
      run_timers_stop_remove [OF tm assms(2) x, of rt']
      run_timers_map_of [OF tm assms(2), of rt']
    by blast
qed

theorem timer_ends_session_whatever_the_activity_witness:
  "fst (app_post_sessions_v1 runtime_ok 0 ''a'' empty_server_v1) = SessionCreated ''a''
   \<and> map_option lastActivity
       (map_of (activeSessions
          (client_activity [(30 * 60 * 1000 - 1, ''a'', 3, ''ls'')]
             (snd (app_post_sessions_v1 runtime_ok 0 ''a'' empty_server_v1)))) ''a'')
       = Some (30 * 60 * 1000 - 1)
   \<and> calls
        (run_timers runtime_ok (30 * 60 * 1000)
          (client_activity [(30 * 60 * 1000 - 1, ''a'', 3, ''ls'')]
             (snd (app_post_sessions_v1 runtime_ok 0 ''a'' empty_server_v1))))
       = [CreateContainer hostConfig_v1, ContainerStart 0, ContainerExec 0, ExecStart 2,
          ContainerStop 0, ContainerRemove 0]
   \<and> map_of (activeSessions
        (run_timers runtime_ok (30 * 60 * 1000)
          (client_activity [(30 * 60 * 1000 - 1, ''a'', 3, ''ls'')]
             (snd (app_post_sessions_v1 runtime_ok 0 ''a'' empty_server_v1))))) ''a''
       = None"
proof -
  have created: "fst (app_post_sessions_v1 runtime_ok 0 ''a'' empty_server_v1) = SessionCreated ''a''"
    by (simp add: app_post_sessions_v1_def invoke_def runtime_ok_def empty_server_v1_def)
  have active: "map_option lastActivity
       (map_of (activeSessions
          (client_activity [(30 * 60 * 1000 - 1, ''a'', 3, ''ls'')]
             (snd (app_post_sessions_v1 runtime_ok 0 ''a'' empty_server_v1)))) ''a'')
       = Some (30 * 60 * 1000 - 1)"
    by (simp add: app_post_sessions_v1_def invoke_def runtime_ok_def empty_server_v1_def
        client_activity_def client_frame_def ws_on_message_v1_def Let_def)
  have torn_down: "calls
        (run_timers runtime_ok (30 * 60 * 1000)
          (client_activity [(30 * 60 * 1000 - 1, ''a'', 3, ''ls'')]
             (snd (app_post_sessions_v1 runtime_ok 0 ''a'' empty_server_v1))))
       = [CreateContainer hostConfig_v1, ContainerStart 0, ContainerExec 0, ExecStart 2,
          ContainerStop 0, ContainerRemove 0]"
    by (simp add: app_post_sessions_v1_def invoke_def runtime_ok_def empty_server_v1_def
        client_activity_def client_frame_def ws_on_message_v1_def Let_def
        run_timers_def fire_def timeout_callback_def cleanupSession_def)
  show ?thesis
    using created active torn_down
      timer_ends_session_whatever_the_activity
        [of runtime_ok 0 "''a''" empty_server_v1 "30 * 60 * 1000"
            "[(30 * 60 * 1000 - 1, ''a'', 3, ''ls'')]" runtime_ok]
    by simp
qed

end
